theory Spec2Isabelle
  imports Complex_Main "HOL-Library.Log_Nat"
begin

section \<open>The Toast component (packages/main/src/Toast.ts)\<close>

text \<open>
  The component is a class with reactive properties. Its fields become a record, every
  method a function from the state to the updated state. The \<open>duration\<close> property is
  guarded by the \<open>Integer\<close> validator and is an \<open>int\<close> here (the property holds an
  integer that is a double; every integer from \<open>-2^53\<close> to \<open>2^53\<close> is one). The
  getter \<open>styles\<close> divides and subtracts JavaScript numbers, which are IEEE 754
  doubles: its results are the rounded ones.
\<close>

subsection \<open>JavaScript numbers\<close>

text \<open>
  A finite double is a rational number \<open>m * 2^e\<close> with a significand \<open>m\<close> of at
  most 53 bits. The operators \<open>/\<close> and \<open>-\<close> return the double nearest to the exact
  result, a tie going to the even significand.
\<close>

text \<open>The integer nearest to a rational, a tie going to the even one.\<close>

definition round_half_even :: "rat \<Rightarrow> int" where
  "round_half_even q =
     (let f = \<lfloor>q\<rfloor>; r = q - of_int f in
      if r < 1 / 2 then f
      else if 1 / 2 < r then f + 1
      else if even f then f else f + 1)"

text \<open>
  The distance between neighbouring doubles around \<open>x\<close>, for \<open>x\<close> of at least 1:
  with \<open>b\<close> the number of bits of the integer part, \<open>2^(b-1) \<le> x < 2^b\<close> and the
  53-bit significands are the multiples of \<open>2^(b-53)\<close>.
\<close>

definition ulp :: "rat \<Rightarrow> rat" where
  "ulp x = 2 powi (bitlen \<lfloor>x\<rfloor> - 53)"

text \<open>
  The double nearest to \<open>x\<close>, for \<open>x\<close> of at least 1 and below the overflow
  threshold. Every number that \<open>styles\<close> rounds is at least 1, and none exceeds the
  duration it is computed from.
\<close>

definition double_round :: "rat \<Rightarrow> rat" where
  "double_round x = of_int (round_half_even (x / ulp x)) * ulp x"

text \<open>The operators \<open>/\<close> and \<open>-\<close> on two doubles.\<close>

definition double_div :: "rat \<Rightarrow> rat \<Rightarrow> rat" where
  "double_div a b = double_round (a / b)"

definition double_sub :: "rat \<Rightarrow> rat \<Rightarrow> rat" where
  "double_sub a b = double_round (a - b)"

subsection \<open>Constants and data\<close>

definition MIN_DURATION :: int where
  "MIN_DURATION = 500"

definition MAX_DURATION :: int where
  "MAX_DURATION = 1000"

text \<open>The values of \<open>ToastPlacement\<close>, as the documentation of \<open>placement\<close> lists them.\<close>

datatype ToastPlacement =
  TopStart | TopCenter | TopEnd
  | MiddleStart | MiddleCenter | MiddleEnd
  | BottomStart | BottomCenter | BottomEnd

text \<open>
  The state of one toast. \<open>open'\<close> is the property \<open>open\<close> and \<open>reopen\<close> the field
  \<open>_reopen\<close>. \<open>rafPending\<close> counts the callbacks that \<open>_initiateOpening\<close> has handed
  to \<open>requestAnimationFrame\<close> and that the browser has not run yet.
\<close>

record Toast =
  duration :: int
  placement :: ToastPlacement
  open' :: bool
  hover :: bool
  domRendered :: bool
  reopen :: bool
  rafPending :: nat

subsection \<open>Computed values\<close>

definition effectiveDuration :: "Toast \<Rightarrow> int" where
  "effectiveDuration t =
     (if duration t < MIN_DURATION then MIN_DURATION else duration t)"

text \<open>The local constant \<open>transitionDuration\<close> of \<open>styles\<close>.\<close>

definition transitionDuration :: "Toast \<Rightarrow> rat" where
  "transitionDuration t =
     min (double_div (of_int (effectiveDuration t)) 3) (of_int MAX_DURATION)"

text \<open>
  A style value is a time in milliseconds (the template string \<open>${n}ms\<close>, which
  prints the double \<open>n\<close>), a literal text, or a number (the z-index).
\<close>

datatype css_value = Ms rat | Lit string | Num nat

record root_styles =
  transition_duration :: css_value
  transition_delay :: css_value
  opacity :: css_value
  z_index :: css_value

text \<open>
  \<open>styles\<close> returns an object with the single key \<open>root\<close>; the record is that inner
  object. \<open>getNextZIndex\<close> belongs to the base framework: its result is the
  parameter \<open>z\<close>.
\<close>

definition styles :: "nat \<Rightarrow> Toast \<Rightarrow> root_styles" where
  "styles z t =
     \<lparr> transition_duration = (if open' t then Ms (transitionDuration t) else Lit ''''),
       transition_delay =
         (if open' t
          then Ms (double_sub (of_int (effectiveDuration t)) (transitionDuration t))
          else Lit ''''),
       opacity = (if open' t \<and> \<not> hover t then Lit ''0'' else Lit ''''),
       z_index = Num z \<rparr>"

subsection \<open>Lifecycle and event handlers\<close>

text \<open>
  The constructor sets \<open>_reopen\<close>; the properties start at their declared defaults
  (\<open>3000\<close>, \<open>BottomCenter\<close>, and \<open>false\<close> for the boolean ones), and no callback
  is pending.
\<close>

definition constructor :: Toast where
  "constructor =
     \<lparr> duration = 3000, placement = BottomCenter, open' = False, hover = False,
       domRendered = False, reopen = False, rafPending = 0 \<rparr>"

definition initiateOpening :: "Toast \<Rightarrow> Toast" where
  "initiateOpening t = t\<lparr>domRendered := True, rafPending := rafPending t + 1\<rparr>"

text \<open>
  The arrow function given to \<open>requestAnimationFrame\<close>. The browser runs it once for
  each registration; with nothing registered there is nothing to run.
\<close>

definition frameCallback :: "Toast \<Rightarrow> Toast" where
  "frameCallback t =
     (if rafPending t = 0 then t
      else t\<lparr>open' := True, rafPending := rafPending t - 1\<rparr>)"

definition onAfterRendering :: "Toast \<Rightarrow> Toast" where
  "onAfterRendering t =
     (if reopen t then initiateOpening (t\<lparr>reopen := False\<rparr>) else t)"

definition show' :: "Toast \<Rightarrow> Toast" where
  "show' t =
     (if open' t then t\<lparr>reopen := True, open' := False\<rparr> else initiateOpening t)"

definition ontransitionend :: "Toast \<Rightarrow> Toast" where
  "ontransitionend t =
     (if hover t then t else t\<lparr>domRendered := False, open' := False\<rparr>)"

definition onmouseover :: "Toast \<Rightarrow> Toast" where
  "onmouseover t = t\<lparr>hover := True\<rparr>"

definition onmouseleave :: "Toast \<Rightarrow> Toast" where
  "onmouseleave t = t\<lparr>hover := False\<rparr>"

subsection \<open>Runs of operations\<close>

text \<open>
  The operations that change a toast after its construction: the public method, the
  rendering hook, the private opening step, the callback the browser runs for it, and
  the three event handlers.
\<close>

datatype operation =
  Show | OnAfterRendering | InitiateOpening | FrameCallback
  | OnTransitionEnd | OnMouseOver | OnMouseLeave

fun step :: "operation \<Rightarrow> Toast \<Rightarrow> Toast" where
  "step Show t = show' t"
| "step OnAfterRendering t = onAfterRendering t"
| "step InitiateOpening t = initiateOpening t"
| "step FrameCallback t = frameCallback t"
| "step OnTransitionEnd t = ontransitionend t"
| "step OnMouseOver t = onmouseover t"
| "step OnMouseLeave t = onmouseleave t"

text \<open>The toast after a sequence of operations, the first of the list run first.\<close>

definition run :: "operation list \<Rightarrow> Toast \<Rightarrow> Toast" where
  "run ops t = fold step ops t"

text \<open>
  The relation between the flags: a toast marked for reopening is not open, and an
  open toast has its DOM rendered.
\<close>

definition flags_consistent :: "Toast \<Rightarrow> bool" where
  "flags_consistent t \<longleftrightarrow> (reopen t \<longrightarrow> \<not> open' t) \<and> (open' t \<longrightarrow> domRendered t)"

section \<open>The upload collection (packages/fiori, known through its test suite)\<close>

text \<open>
  Of the upload collection and its items only the browser test suite
  \<open>test/specs/UploadCollection.spec.js\<close> is at hand; the components themselves are
  described after the behaviour that suite and the specification state.
\<close>

subsection \<open>Deriving the file extension\<close>

text \<open>
  \<open>String.prototype.lastIndexOf\<close> for a single character: the position of its last
  occurrence, \<open>None\<close> standing for the result \<open>-1\<close>.
\<close>

fun lastIndexOf :: "char \<Rightarrow> string \<Rightarrow> nat option" where
  "lastIndexOf c [] = None"
| "lastIndexOf c (x # xs) =
     (case lastIndexOf c xs of
        Some i \<Rightarrow> Some (Suc i)
      | None \<Rightarrow> (if x = c then Some 0 else None))"

text \<open>
  Modelled from the spec: the extension getter of the upload-collection item, whose
  source file is missing. The extension is the part of the file name from its last dot
  on (the dot included, so that it can be appended to a base name); a name without a
  dot, or whose last dot is its first character, has the empty extension.
\<close>

definition fileExtension :: "string \<Rightarrow> string" where
  "fileExtension name =
     (case lastIndexOf CHR ''.'' name of
        None \<Rightarrow> []
      | Some i \<Rightarrow> (if i = 0 then [] else drop i name))"

text \<open>
  Modelled from the spec: the base-name getter of the upload-collection item, whose
  source file is missing. The base name is the file name without its extension.
\<close>

definition fileNameWithoutExtension :: "string \<Rightarrow> string" where
  "fileNameWithoutExtension name =
     take (length name - length (fileExtension name)) name"

subsection \<open>Items and their edit-in-place handlers\<close>

text \<open>
  Modelled from the spec: the state of an upload-collection item, whose source file is
  missing. \<open>item_id\<close> is the element's id, \<open>editing\<close> the attribute \<open>_editing\<close>, and
  \<open>editInput\<close> the value of the edit input.
\<close>

record UploadCollectionItem =
  item_id :: string
  fileName :: string
  editing :: bool
  editInput :: string

text \<open>The events the handlers fire.\<close>

datatype event = Rename string | ItemDelete string

text \<open>
  Modelled from the spec: the handler of the item's edit (detail) button, whose source
  file is missing. It starts the edit; the input holds the base name only.
\<close>

definition onDetailClick :: "UploadCollectionItem \<Rightarrow> UploadCollectionItem" where
  "onDetailClick it =
     it\<lparr>editing := True, editInput := fileNameWithoutExtension (fileName it)\<rparr>"

text \<open>
  Modelled from the spec: typing into the edit input, whose source file is missing.
  The input's content is selected when the edit starts, so the typed text replaces it.
\<close>

definition onInput :: "string \<Rightarrow> UploadCollectionItem \<Rightarrow> UploadCollectionItem" where
  "onInput txt it = (if editing it then it\<lparr>editInput := txt\<rparr> else it)"

text \<open>
  Modelled from the spec: the handler that confirms a rename, whose source file is
  missing. The extension of the current file name is appended to the entered base
  name, the edit ends and the \<open>rename\<close> event is fired.
\<close>

definition onRename :: "UploadCollectionItem \<Rightarrow> UploadCollectionItem \<times> event list" where
  "onRename it =
     (it\<lparr>fileName := editInput it @ fileExtension (fileName it), editing := False\<rparr>,
      [Rename (item_id it)])"

text \<open>
  Modelled from the spec: the handler of the cancel button, whose source file is
  missing. The edit ends, the file name is not touched and no event is fired.
\<close>

definition onRenameCancel :: "UploadCollectionItem \<Rightarrow> UploadCollectionItem \<times> event list" where
  "onRenameCancel it = (it\<lparr>editing := False\<rparr>, [])"

subsection \<open>The collection and its inner list\<close>

text \<open>
  Modelled from the spec: the state of the upload collection, whose source file is
  missing. \<open>mode\<close> and \<open>accessibleName\<close> are attributes (the latter may be absent),
  \<open>header\<close> holds the nodes assigned to the header slot, named by their ids.
\<close>

record UploadCollection =
  mode :: string
  accessibleName :: "string option"
  header :: "string list"
  items :: "UploadCollectionItem list"

text \<open>The part of the inner \<open>ui5-list\<close> that the collection's template fills.\<close>

record InnerList =
  list_mode :: string
  list_accessibleName :: "string option"
  list_header :: "string list"

text \<open>
  Modelled from the spec: the template of the upload collection, whose source file is
  missing. It renders an inner list and hands the mode, the accessible name and the
  header slot on to it.
\<close>

definition innerList :: "UploadCollection \<Rightarrow> InnerList" where
  "innerList uc =
     \<lparr> list_mode = mode uc, list_accessibleName = accessibleName uc,
       list_header = header uc \<rparr>"

text \<open>
  Modelled from the spec: the handler of an item's delete button, whose source file is
  missing. The collection fires \<open>item-delete\<close> for the item, whatever its mode.
\<close>

definition onItemDelete :: "UploadCollection \<Rightarrow> UploadCollectionItem \<Rightarrow> event list" where
  "onItemDelete uc it = [ItemDelete (item_id it)]"

text \<open>
  Modelled from the spec: the listener of the test page, which is missing. On
  \<open>item-delete\<close> it removes the item of the event from the collection.
\<close>

fun pageListener :: "event \<Rightarrow> UploadCollection \<Rightarrow> UploadCollection" where
  "pageListener (ItemDelete i) uc =
     uc\<lparr>items := filter (\<lambda>it. item_id it \<noteq> i) (items uc)\<rparr>"
| "pageListener (Rename i) uc = uc"

text \<open>A click on the delete button of an item: the handler runs, then the listeners.\<close>

definition clickDelete ::
  "UploadCollection \<Rightarrow> UploadCollectionItem \<Rightarrow> event list \<times> UploadCollection" where
  "clickDelete uc it =
     (let evs = onItemDelete uc it in (evs, fold pageListener evs uc))"

section \<open>Properties of the Toast\<close>

text \<open>
  C2. For every integer value of the duration property, \<open>effectiveDuration\<close> is the
  duration itself when that is at least 500, and exactly 500 when it is lower.
\<close>

theorem effectiveDuration_clamped:
  "(500 \<le> duration t \<longrightarrow> effectiveDuration t = duration t) \<and>
   (duration t < 500 \<longrightarrow> effectiveDuration t = 500)"
  by (simp add: effectiveDuration_def MIN_DURATION_def)

theorem effectiveDuration_clamped_witness:
  "500 \<le> duration constructor \<and> effectiveDuration constructor = 3000 \<and>
   duration (constructor\<lparr>duration := 120\<rparr>) < 500 \<and>
   effectiveDuration (constructor\<lparr>duration := 120\<rparr>) = 500"
  using effectiveDuration_clamped [of constructor]
    effectiveDuration_clamped [of "constructor\<lparr>duration := 120\<rparr>"]
  by (simp add: constructor_def)

subsection \<open>Rounding to the nearest double\<close>

lemma round_half_even_bounds:
  "\<lfloor>q\<rfloor> \<le> round_half_even q \<and> round_half_even q \<le> \<lfloor>q\<rfloor> + 1"
  by (simp add: round_half_even_def Let_def)

lemma round_half_even_error: "\<bar>of_int (round_half_even q) - q\<bar> \<le> 1 / 2"
proof -
  have "of_int \<lfloor>q\<rfloor> \<le> q" and "q < of_int \<lfloor>q\<rfloor> + 1"
    by linarith+
  then show ?thesis
    by (auto simp add: round_half_even_def Let_def)
qed

lemma round_half_even_of_int: "round_half_even (of_int k) = k"
  by (simp add: round_half_even_def)

lemma round_half_even_mono:
  assumes "q \<le> q'"
  shows "round_half_even q \<le> round_half_even q'"
proof (cases "\<lfloor>q\<rfloor> = \<lfloor>q'\<rfloor>")
  case True
  with assms show ?thesis
    by (auto simp add: round_half_even_def Let_def)
next
  case False
  with assms have "\<lfloor>q\<rfloor> + 1 \<le> \<lfloor>q'\<rfloor>"
    using floor_mono [of q q'] by linarith
  with round_half_even_bounds [of q] round_half_even_bounds [of q']
  show ?thesis by linarith
qed

lemma ulp_pos: "0 < ulp x"
  by (simp add: ulp_def)

lemma binade:
  fixes x :: rat
  assumes "1 \<le> x"
  shows "2 powi (bitlen \<lfloor>x\<rfloor> - 1) \<le> x \<and> x < 2 powi (bitlen \<lfloor>x\<rfloor>)"
proof -
  let ?n = "\<lfloor>x\<rfloor>"
  let ?b = "bitlen ?n"
  from assms have "1 \<le> ?n" by simp
  then have n: "0 < ?n" by linarith
  from bitlen_bounds [OF n] have lo: "2 ^ nat (?b - 1) \<le> ?n" and hi: "?n < 2 ^ nat ?b"
    by simp_all
  from n have b: "1 \<le> ?b"
    using bitlen_eq_zero_iff [of ?n] bitlen_nonneg [of ?n] by linarith
  have "(2::rat) powi (?b - 1) = of_int (2 ^ nat (?b - 1))"
    using b by (simp add: power_int_def)
  also have "\<dots> \<le> of_int ?n"
    using lo by (simp only: of_int_le_iff)
  also have "\<dots> \<le> x" by simp
  finally have l: "2 powi (?b - 1) \<le> x" .
  have "?n + 1 \<le> 2 ^ nat ?b"
    using hi by linarith
  then have h: "(of_int (?n + 1) :: rat) \<le> of_int (2 ^ nat ?b)"
    by (simp only: of_int_le_iff)
  have e: "(of_int (2 ^ nat ?b) :: rat) = 2 powi ?b"
    using b by (simp add: power_int_def)
  have "x < of_int (?n + 1)" by linarith
  with h e have "x < 2 powi ?b" by linarith
  with l show ?thesis by simp
qed

lemma ulp_scale:
  "2 ^ 52 * ulp x = 2 powi (bitlen \<lfloor>x\<rfloor> - 1)" "2 ^ 53 * ulp x = 2 powi (bitlen \<lfloor>x\<rfloor>)"
proof -
  have "(2::rat) powi (52 + (bitlen \<lfloor>x\<rfloor> - 53)) = 2 powi 52 * 2 powi (bitlen \<lfloor>x\<rfloor> - 53)"
    by (rule power_int_add) simp
  then show "2 ^ 52 * ulp x = 2 powi (bitlen \<lfloor>x\<rfloor> - 1)"
    by (simp add: ulp_def)
  have "(2::rat) powi (53 + (bitlen \<lfloor>x\<rfloor> - 53)) = 2 powi 53 * 2 powi (bitlen \<lfloor>x\<rfloor> - 53)"
    by (rule power_int_add) simp
  then show "2 ^ 53 * ulp x = 2 powi (bitlen \<lfloor>x\<rfloor>)"
    by (simp add: ulp_def)
qed

lemma double_round_bounds:
  assumes "1 \<le> x"
  shows "2 powi (bitlen \<lfloor>x\<rfloor> - 1) \<le> double_round x \<and> double_round x \<le> 2 powi (bitlen \<lfloor>x\<rfloor>)"
proof -
  let ?u = "ulp x"
  have u: "0 < ?u" by (rule ulp_pos)
  have "2 ^ 52 * ?u \<le> x" and "x \<le> 2 ^ 53 * ?u"
    unfolding ulp_scale using binade [OF assms] by simp_all
  with u have lo: "of_int (2 ^ 52) \<le> x / ?u" and hi: "x / ?u \<le> of_int (2 ^ 53)"
    by (simp_all add: pos_le_divide_eq pos_divide_le_eq)
  have "round_half_even (of_int (2 ^ 52)) \<le> round_half_even (x / ?u)"
    using lo by (rule round_half_even_mono)
  moreover have "round_half_even (x / ?u) \<le> round_half_even (of_int (2 ^ 53))"
    using hi by (rule round_half_even_mono)
  ultimately have "2 ^ 52 \<le> round_half_even (x / ?u)" and "round_half_even (x / ?u) \<le> 2 ^ 53"
    by (simp_all only: round_half_even_of_int)
  then have "(of_int (2 ^ 52) :: rat) \<le> of_int (round_half_even (x / ?u))"
    and "(of_int (round_half_even (x / ?u)) :: rat) \<le> of_int (2 ^ 53)"
    by (simp_all only: of_int_le_iff)
  with u have "of_int (2 ^ 52) * ?u \<le> double_round x"
    and "double_round x \<le> of_int (2 ^ 53) * ?u"
    unfolding double_round_def by (simp_all only: mult_le_cancel_right_pos)
  then have "2 ^ 52 * ?u \<le> double_round x" and "double_round x \<le> 2 ^ 53 * ?u"
    by simp_all
  then show ?thesis by (simp only: ulp_scale)
qed

lemma double_round_mono:
  assumes "1 \<le> x" and "x \<le> y"
  shows "double_round x \<le> double_round y"
proof (cases "bitlen \<lfloor>x\<rfloor> = bitlen \<lfloor>y\<rfloor>")
  case True
  then have u: "ulp y = ulp x" by (simp add: ulp_def)
  have "x / ulp x \<le> y / ulp x"
    using assms(2) ulp_pos [of x] by (simp add: divide_right_mono)
  then have "round_half_even (x / ulp x) \<le> round_half_even (y / ulp x)"
    by (rule round_half_even_mono)
  then have "(of_int (round_half_even (x / ulp x)) :: rat) \<le> of_int (round_half_even (y / ulp x))"
    by (simp only: of_int_le_iff)
  then show ?thesis
    using ulp_pos [of x] by (simp add: double_round_def u)
next
  case False
  from assms have y: "1 \<le> y" by simp
  have "\<not> bitlen \<lfloor>y\<rfloor> < bitlen \<lfloor>x\<rfloor>"
  proof
    assume "bitlen \<lfloor>y\<rfloor> < bitlen \<lfloor>x\<rfloor>"
    then have "(2::rat) powi (bitlen \<lfloor>y\<rfloor>) \<le> 2 powi (bitlen \<lfloor>x\<rfloor> - 1)"
      by (intro power_int_increasing) simp_all
    with binade [OF assms(1)] binade [OF y] assms(2) show False by linarith
  qed
  with False have "bitlen \<lfloor>x\<rfloor> \<le> bitlen \<lfloor>y\<rfloor> - 1" by simp
  then have "(2::rat) powi (bitlen \<lfloor>x\<rfloor>) \<le> 2 powi (bitlen \<lfloor>y\<rfloor> - 1)"
    by (intro power_int_increasing) simp_all
  with double_round_bounds [OF assms(1)] double_round_bounds [OF y]
  show ?thesis by linarith
qed

lemma double_round_error:
  assumes "1 \<le> x"
  shows "\<bar>double_round x - x\<bar> \<le> x / 2 ^ 53"
proof -
  let ?u = "ulp x"
  have u: "0 < ?u" by (rule ulp_pos)
  have "double_round x - x = (of_int (round_half_even (x / ?u)) - x / ?u) * ?u"
    using u by (simp add: double_round_def algebra_simps)
  then have "\<bar>double_round x - x\<bar> = \<bar>of_int (round_half_even (x / ?u)) - x / ?u\<bar> * ?u"
    using u by (simp add: abs_mult)
  also have "\<dots> \<le> 1 / 2 * ?u"
    using round_half_even_error [of "x / ?u"] u by (simp only: mult_le_cancel_right_pos)
  also have "\<dots> = (2 ^ 52 * ?u) / 2 ^ 53"
    by simp
  also have "\<dots> \<le> x / 2 ^ 53"
  proof -
    have "2 ^ 52 * ?u \<le> x"
      unfolding ulp_scale using binade [OF assms] by simp
    then show ?thesis by (simp add: divide_right_mono)
  qed
  finally show ?thesis .
qed

lemma double_round_multiple:
  assumes "x = of_int k * ulp x"
  shows "double_round x = x"
proof -
  have "x / ulp x = of_int k"
    using assms ulp_pos [of x] by (simp add: nonzero_divide_eq_eq)
  then show ?thesis
    using assms by (simp add: double_round_def round_half_even_of_int)
qed

lemma double_round_of_int:
  assumes "1 \<le> n" and "n \<le> 2 ^ 53"
  shows "double_round (of_int n) = of_int n"
proof (cases "n = 2 ^ 53")
  case True
  have "bitlen (2 ^ 53) = 54"
    using bitlen_pow2 [of 1 53] by (simp add: compute_bitlen)
  then have "ulp (of_int n) = 2"
    using True by (simp add: ulp_def)
  then have "of_int n = of_int (2 ^ 52) * ulp (of_int n)"
    using True by simp
  then show ?thesis by (rule double_round_multiple)
next
  case False
  let ?b = "bitlen n"
  from assms False have lt: "n < 2 ^ 53" by simp
  then have b: "?b \<le> 53"
    by (simp add: bitlen_le_iff_power)
  have "(2::rat) powi (?b - 53) * 2 powi (53 - ?b) = 2 powi ((?b - 53) + (53 - ?b))"
    by (rule power_int_add [symmetric]) simp
  then have "ulp (of_int n) * 2 ^ nat (53 - ?b) = 1"
    using b by (simp add: ulp_def power_int_def)
  then have "of_int n = of_int (n * 2 ^ nat (53 - ?b)) * ulp (of_int n)"
    by (simp add: mult.assoc mult.commute)
  then show ?thesis by (rule double_round_multiple)
qed

subsection \<open>The computed values\<close>

lemma effectiveDuration_ge: "500 \<le> effectiveDuration t"
  by (simp add: effectiveDuration_def MIN_DURATION_def)

lemma third_ge_1: "(1::rat) \<le> of_int (effectiveDuration t) / 3"
proof -
  have "(500::rat) \<le> of_int (effectiveDuration t)"
    using effectiveDuration_ge [of t] by (simp only: of_int_le_iff [symmetric, where ?'a = rat] of_int_numeral)
  then show ?thesis by simp
qed

lemma double_round_1000: "double_round 1000 = 1000"
  using double_round_of_int [of 1000] by simp

lemma transitionDuration_le_max: "transitionDuration t \<le> 1000"
  by (simp add: transitionDuration_def MAX_DURATION_def)

lemma transitionDuration_large:
  assumes "3000 \<le> effectiveDuration t"
  shows "transitionDuration t = 1000"
proof -
  from assms have "(3000::rat) \<le> of_int (effectiveDuration t)"
    by (simp only: of_int_le_iff [symmetric, where ?'a = rat] of_int_numeral)
  then have "(1000::rat) \<le> of_int (effectiveDuration t) / 3"
    by simp
  then have "double_round 1000 \<le> double_round (of_int (effectiveDuration t) / 3)"
    by (intro double_round_mono) simp_all
  then show ?thesis
    by (simp add: transitionDuration_def double_div_def MAX_DURATION_def double_round_1000)
qed

lemma transitionDuration_small:
  assumes "effectiveDuration t < 3000"
  shows "transitionDuration t = double_round (of_int (effectiveDuration t) / 3)"
proof -
  from assms have "of_int (effectiveDuration t) < (3000::rat)"
    by (simp only: of_int_less_iff [symmetric, where ?'a = rat] of_int_numeral)
  then have "of_int (effectiveDuration t) / 3 \<le> (1000::rat)"
    by simp
  with third_ge_1 [of t]
  have "double_round (of_int (effectiveDuration t) / 3) \<le> double_round 1000"
    by (intro double_round_mono)
  then show ?thesis
    by (simp add: transitionDuration_def double_div_def MAX_DURATION_def double_round_1000)
qed

lemma transitionDuration_divisible:
  assumes "effectiveDuration t < 3000" and "3 dvd effectiveDuration t"
  shows "transitionDuration t = of_int (effectiveDuration t) / 3"
proof -
  from assms(2) obtain k where k: "effectiveDuration t = 3 * k" ..
  with effectiveDuration_ge [of t] assms(1) have "1 \<le> k" and "k \<le> 2 ^ 53"
    by simp_all
  then have "double_round (of_int k) = of_int k"
    by (rule double_round_of_int)
  with transitionDuration_small [OF assms(1)] k show ?thesis
    by simp
qed

lemma transitionDuration_error:
  "\<bar>transitionDuration t - min (of_int (effectiveDuration t) / 3) 1000\<bar>
     \<le> of_int (effectiveDuration t) / 3 / 2 ^ 53"
proof (cases "3000 \<le> effectiveDuration t")
  case True
  then have "(3000::rat) \<le> of_int (effectiveDuration t)"
    by (simp only: of_int_le_iff [symmetric, where ?'a = rat] of_int_numeral)
  with transitionDuration_large [OF True] show ?thesis
    by simp
next
  case False
  then have s: "effectiveDuration t < 3000" by simp
  then have "of_int (effectiveDuration t) < (3000::rat)"
    by (simp only: of_int_less_iff [symmetric, where ?'a = rat] of_int_numeral)
  then have "min (of_int (effectiveDuration t) / 3) (1000::rat) = of_int (effectiveDuration t) / 3"
    by simp
  with transitionDuration_small [OF s] double_round_error [OF third_ge_1 [of t]]
  show ?thesis by simp
qed

lemma transitionDuration_upper:
  "transitionDuration t \<le> of_int (effectiveDuration t) / 3 * (1 + 1 / 2 ^ 53)"
proof -
  define q :: rat where "q = of_int (effectiveDuration t) / 3"
  define e :: rat where "e = q / 2 ^ 53"
  have "transitionDuration t \<le> double_round q"
    by (simp add: transitionDuration_def double_div_def q_def)
  moreover have "\<bar>double_round q - q\<bar> \<le> e"
    unfolding q_def e_def by (rule double_round_error [OF third_ge_1])
  ultimately have "transitionDuration t \<le> q + e"
    by linarith
  also have "q + e = q * (1 + 1 / 2 ^ 53)"
    by (simp add: e_def algebra_simps)
  finally show ?thesis by (simp only: q_def)
qed

lemma difference_ge_1:
  "1 \<le> of_int (effectiveDuration t) - transitionDuration t"
proof -
  have "(0::rat) \<le> of_int (effectiveDuration t) / 3"
    using third_ge_1 [of t] by linarith
  then have "of_int (effectiveDuration t) / 3 * (1 + 1 / 2 ^ 53)
      \<le> of_int (effectiveDuration t) / 3 * (2::rat)"
    by (intro mult_left_mono) simp_all
  with transitionDuration_upper [of t] third_ge_1 [of t] show ?thesis
    by linarith
qed

lemma delay_nonneg:
  "0 \<le> double_sub (of_int (effectiveDuration t)) (transitionDuration t)"
proof -
  have "double_round 1 \<le> double_round (of_int (effectiveDuration t) - transitionDuration t)"
    using difference_ge_1 [of t] by (intro double_round_mono) simp_all
  moreover have "double_round 1 = 1"
    using double_round_of_int [of 1] by simp
  ultimately show ?thesis by (simp add: double_sub_def)
qed

lemma delay_error:
  "\<bar>double_sub (of_int (effectiveDuration t)) (transitionDuration t)
      + transitionDuration t - of_int (effectiveDuration t)\<bar>
     \<le> (of_int (effectiveDuration t) - transitionDuration t) / 2 ^ 53"
  using double_round_error [OF difference_ge_1 [of t]]
  by (simp add: double_sub_def algebra_simps)

lemma delay_exact:
  assumes "effectiveDuration t \<le> 2 ^ 53"
    and "3000 \<le> effectiveDuration t \<or> 3 dvd effectiveDuration t"
  shows "double_sub (of_int (effectiveDuration t)) (transitionDuration t)
      + transitionDuration t = of_int (effectiveDuration t)"
proof -
  have "\<exists>k. 1 \<le> k \<and> k \<le> 2 ^ 53 \<and>
      of_int (effectiveDuration t) - transitionDuration t = of_int k"
  proof (cases "3000 \<le> effectiveDuration t")
    case True
    with assms(1) transitionDuration_large [OF True] show ?thesis
      by (intro exI [of _ "effectiveDuration t - 1000"]) simp
  next
    case False
    with assms(2) have d: "3 dvd effectiveDuration t" and s: "effectiveDuration t < 3000"
      by simp_all
    from d obtain k where k: "effectiveDuration t = 3 * k" ..
    with effectiveDuration_ge [of t] s transitionDuration_divisible [OF s d] show ?thesis
      by (intro exI [of _ "2 * k"]) simp
  qed
  then obtain k where "1 \<le> k" and "k \<le> 2 ^ 53"
    and k: "of_int (effectiveDuration t) - transitionDuration t = of_int k"
    by blast
  then have "double_round (of_int k) = of_int k"
    by (intro double_round_of_int)
  with k show ?thesis
    by (simp add: double_sub_def)
qed

text \<open>
  The transition duration can exceed the exact third of the effective duration: at
  1001 the quotient is rounded upwards.
\<close>

lemma transitionDuration_above_third:
  "effectiveDuration (constructor\<lparr>duration := 1001\<rparr>) = 1001 \<and>
   (1001 / 3 :: rat) < transitionDuration (constructor\<lparr>duration := 1001\<rparr>)"
  by code_simp

text \<open>
  C3, as the claim states it, fails. With a duration of 1000 the quotient
  \<open>1000 / 3\<close> is no double; the style holds the double nearest to it,
  \<open>333.3333333333333\<close>, which is not \<open>min (1000 / 3) 1000\<close>.
\<close>

theorem styles_transition_duration_counterexample:
  "open' (constructor\<lparr>open' := True, duration := 1000\<rparr>) \<and>
   transition_duration (styles 0 (constructor\<lparr>open' := True, duration := 1000\<rparr>))
     = Ms (5864062014805333 / 17592186044416) \<and>
   transition_duration (styles 0 (constructor\<lparr>open' := True, duration := 1000\<rparr>))
     \<noteq> Ms (min
         (of_int (effectiveDuration (constructor\<lparr>open' := True, duration := 1000\<rparr>)) / 3)
         1000)"
  by code_simp

text \<open>
  C3, amended. With \<open>open = true\<close> the styles set the transition duration to
  \<open>min q 1000\<close> milliseconds, where \<open>q\<close> is the double nearest to
  \<open>effectiveDuration / 3\<close>. It never exceeds 1000, however large the duration
  property is; it is exactly 1000 when the effective duration is at least 3000,
  exactly \<open>effectiveDuration / 3\<close> when the effective duration is below 3000 and
  divisible by 3, and in every case within \<open>(effectiveDuration / 3) / 2^53\<close> of
  \<open>min (effectiveDuration / 3) 1000\<close>.
\<close>

theorem styles_transition_duration:
  "open' t \<Longrightarrow>
     transition_duration (styles z t) = Ms (transitionDuration t) \<and>
     transitionDuration t = min (double_div (of_int (effectiveDuration t)) 3) 1000 \<and>
     transitionDuration t \<le> 1000 \<and>
     (3000 \<le> effectiveDuration t \<longrightarrow> transitionDuration t = 1000) \<and>
     (effectiveDuration t < 3000 \<and> 3 dvd effectiveDuration t \<longrightarrow>
        transitionDuration t = of_int (effectiveDuration t) / 3) \<and>
     \<bar>transitionDuration t - min (of_int (effectiveDuration t) / 3) 1000\<bar>
       \<le> of_int (effectiveDuration t) / 3 / 2 ^ 53"
  using transitionDuration_le_max [of t] transitionDuration_large [of t]
    transitionDuration_divisible [of t] transitionDuration_error [of t]
  by (simp add: styles_def transitionDuration_def MAX_DURATION_def)

theorem styles_transition_duration_witness:
  "open' (constructor\<lparr>open' := True, duration := 600\<rparr>) \<and>
   transition_duration (styles 7 (constructor\<lparr>open' := True, duration := 600\<rparr>)) = Ms 200 \<and>
   open' (constructor\<lparr>open' := True, duration := 86400000\<rparr>) \<and>
   transition_duration (styles 7 (constructor\<lparr>open' := True, duration := 86400000\<rparr>))
     = Ms 1000"
  using styles_transition_duration [of "constructor\<lparr>open' := True, duration := 600\<rparr>" 7]
    styles_transition_duration [of "constructor\<lparr>open' := True, duration := 86400000\<rparr>" 7]
  by (simp add: constructor_def effectiveDuration_def MIN_DURATION_def)

text \<open>
  C4, as the claim states it, fails. With a duration of 500 the styles hold the
  doubles \<open>166.66666666666666\<close> and \<open>333.33333333333337\<close>, whose sum is not 500.
  With a duration of \<open>2^56 + 1040\<close> the difference \<open>2^56 + 40\<close> is no double and the
  delay is \<open>2^56 + 32\<close>: delay and transition duration miss the effective duration by
  8, and their sum rounded to a double misses it by 16.
\<close>

theorem styles_transition_delay_counterexample:
  "open' (constructor\<lparr>open' := True, duration := 500\<rparr>) \<and>
   transition_duration (styles 0 (constructor\<lparr>open' := True, duration := 500\<rparr>))
     = Ms (5864062014805333 / 35184372088832) \<and>
   transition_delay (styles 0 (constructor\<lparr>open' := True, duration := 500\<rparr>))
     = Ms (2932031007402667 / 8796093022208) \<and>
   (2932031007402667 / 8796093022208 + 5864062014805333 / 35184372088832 :: rat)
     \<noteq> of_int (effectiveDuration (constructor\<lparr>open' := True, duration := 500\<rparr>)) \<and>
   open' (constructor\<lparr>open' := True, duration := 72057594037928976\<rparr>) \<and>
   transition_duration
       (styles 0 (constructor\<lparr>open' := True, duration := 72057594037928976\<rparr>))
     = Ms 1000 \<and>
   transition_delay
       (styles 0 (constructor\<lparr>open' := True, duration := 72057594037928976\<rparr>))
     = Ms 72057594037927968 \<and>
   (72057594037927968 + 1000 :: rat)
     \<noteq> of_int (effectiveDuration
         (constructor\<lparr>open' := True, duration := 72057594037928976\<rparr>)) \<and>
   double_round (72057594037927968 + 1000)
     \<noteq> of_int (effectiveDuration
         (constructor\<lparr>open' := True, duration := 72057594037928976\<rparr>))"
  by code_simp

text \<open>
  C4, amended. With \<open>open = true\<close> the transition delay is the double nearest to
  the effective duration minus the computed transition duration. It is never
  negative: the effective duration is at least 500, and the transition duration is
  at most 1000 and at most \<open>(effectiveDuration / 3) * (1 + 2^-53)\<close>. Delay plus
  transition duration is within \<open>(effectiveDuration - transitionDuration) / 2^53\<close>
  of the effective duration, and equals it when the effective duration is at most
  \<open>2^53\<close> and either at least 3000 or divisible by 3.
\<close>

theorem styles_transition_delay:
  "open' t \<Longrightarrow>
     (\<exists>td dl. transition_duration (styles z t) = Ms td \<and>
        transition_delay (styles z t) = Ms dl \<and>
        dl = double_sub (of_int (effectiveDuration t)) td \<and>
        0 \<le> dl \<and>
        500 \<le> effectiveDuration t \<and>
        td \<le> 1000 \<and>
        td \<le> of_int (effectiveDuration t) / 3 * (1 + 1 / 2 ^ 53) \<and>
        \<bar>dl + td - of_int (effectiveDuration t)\<bar>
          \<le> (of_int (effectiveDuration t) - td) / 2 ^ 53 \<and>
        (effectiveDuration t \<le> 2 ^ 53 \<and>
         (3000 \<le> effectiveDuration t \<or> 3 dvd effectiveDuration t) \<longrightarrow>
           dl + td = of_int (effectiveDuration t)))"
proof -
  assume "open' t"
  then have "transition_duration (styles z t) = Ms (transitionDuration t)"
    and "transition_delay (styles z t)
      = Ms (double_sub (of_int (effectiveDuration t)) (transitionDuration t))"
    by (simp_all add: styles_def)
  with delay_nonneg [of t] effectiveDuration_ge [of t] transitionDuration_le_max [of t]
    transitionDuration_upper [of t] delay_error [of t] delay_exact [of t]
  show ?thesis by blast
qed

theorem styles_transition_delay_witness:
  "open' (constructor\<lparr>open' := True, duration := 600\<rparr>) \<and>
   transition_duration (styles 7 (constructor\<lparr>open' := True, duration := 600\<rparr>)) = Ms 200 \<and>
   transition_delay (styles 7 (constructor\<lparr>open' := True, duration := 600\<rparr>)) = Ms 400 \<and>
   (\<exists>td dl.
      transition_duration (styles 7 (constructor\<lparr>open' := True, duration := 600\<rparr>)) = Ms td \<and>
      transition_delay (styles 7 (constructor\<lparr>open' := True, duration := 600\<rparr>)) = Ms dl \<and>
      0 \<le> dl \<and> dl + td = 600)"
proof -
  have h: "open' (constructor\<lparr>open' := True, duration := 600\<rparr>)"
    by (simp add: constructor_def)
  have e: "effectiveDuration (constructor\<lparr>open' := True, duration := 600\<rparr>) = 600"
    by (simp add: constructor_def effectiveDuration_def MIN_DURATION_def)
  have v: "transition_duration (styles 7 (constructor\<lparr>open' := True, duration := 600\<rparr>))
      = Ms 200 \<and>
    transition_delay (styles 7 (constructor\<lparr>open' := True, duration := 600\<rparr>)) = Ms 400"
    by code_simp
  from styles_transition_delay [OF h, of 7] e h v show ?thesis
    by auto
qed

subsection \<open>Showing and showing again\<close>

lemma show_not_open: "\<not> open' (show' t)"
  by (simp add: show'_def initiateOpening_def)

text \<open>
  C5. Calling \<open>show\<close> on a toast that is not open initiates the opening directly:
  \<open>domRendered\<close> becomes true, and \<open>open\<close> becomes true in the next animation-frame
  callback. Calling \<open>show\<close> on an open toast sets \<open>_reopen\<close> and clears \<open>open\<close> without
  initiating the opening (no callback is registered, \<open>domRendered\<close> stays as it
  is); the next \<open>onAfterRendering\<close> resets \<open>_reopen\<close> and initiates the opening.
\<close>

theorem show_and_reshow:
  "(\<not> open' t \<longrightarrow>
      show' t = initiateOpening t \<and>
      domRendered (show' t) \<and> \<not> open' (show' t) \<and>
      rafPending (show' t) = rafPending t + 1 \<and>
      open' (frameCallback (show' t))) \<and>
   (open' t \<longrightarrow>
      reopen (show' t) \<and> \<not> open' (show' t) \<and>
      rafPending (show' t) = rafPending t \<and>
      domRendered (show' t) = domRendered t \<and>
      onAfterRendering (show' t) = initiateOpening ((show' t)\<lparr>reopen := False\<rparr>) \<and>
      \<not> reopen (onAfterRendering (show' t)) \<and>
      domRendered (onAfterRendering (show' t)) \<and>
      rafPending (onAfterRendering (show' t)) = rafPending t + 1 \<and>
      open' (frameCallback (onAfterRendering (show' t))))"
  by (simp add: show'_def initiateOpening_def frameCallback_def onAfterRendering_def)

theorem show_and_reshow_witness:
  "\<not> open' constructor \<and>
   domRendered (show' constructor) \<and>
   open' (frameCallback (show' constructor)) \<and>
   open' (constructor\<lparr>open' := True, domRendered := True\<rparr>) \<and>
   reopen (show' (constructor\<lparr>open' := True, domRendered := True\<rparr>)) \<and>
   rafPending (show' (constructor\<lparr>open' := True, domRendered := True\<rparr>)) = 0 \<and>
   \<not> reopen (onAfterRendering (show' (constructor\<lparr>open' := True, domRendered := True\<rparr>)))"
  using show_and_reshow [of constructor]
    show_and_reshow [of "constructor\<lparr>open' := True, domRendered := True\<rparr>"]
  by (simp add: constructor_def show'_def initiateOpening_def frameCallback_def
      onAfterRendering_def)

subsection \<open>The end of the transition\<close>

text \<open>
  C6. \<open>_ontransitionend\<close> closes the toast (\<open>domRendered\<close> and \<open>open\<close> both false, the
  other fields as they were) exactly when \<open>hover\<close> is false; with \<open>hover\<close> true it
  returns early and the state is unchanged.
\<close>

theorem ontransitionend_hover:
  "(hover t \<longrightarrow> ontransitionend t = t) \<and>
   (\<not> hover t \<longrightarrow>
      \<not> domRendered (ontransitionend t) \<and> \<not> open' (ontransitionend t) \<and>
      duration (ontransitionend t) = duration t \<and>
      placement (ontransitionend t) = placement t \<and>
      hover (ontransitionend t) = hover t \<and>
      reopen (ontransitionend t) = reopen t \<and>
      rafPending (ontransitionend t) = rafPending t) \<and>
   (open' t \<or> domRendered t \<longrightarrow>
      (\<not> domRendered (ontransitionend t) \<and> \<not> open' (ontransitionend t)) = (\<not> hover t))"
  by (auto simp add: ontransitionend_def)

theorem ontransitionend_hover_witness:
  "hover (onmouseover (frameCallback (show' constructor))) \<and>
   ontransitionend (onmouseover (frameCallback (show' constructor)))
     = onmouseover (frameCallback (show' constructor)) \<and>
   \<not> hover (frameCallback (show' constructor)) \<and>
   open' (frameCallback (show' constructor)) \<and>
   \<not> open' (ontransitionend (frameCallback (show' constructor))) \<and>
   \<not> domRendered (ontransitionend (frameCallback (show' constructor)))"
  using ontransitionend_hover [of "onmouseover (frameCallback (show' constructor))"]
    ontransitionend_hover [of "frameCallback (show' constructor)"]
  by (simp add: constructor_def show'_def initiateOpening_def frameCallback_def
      onmouseover_def)

subsection \<open>The relation between the flags\<close>

lemma step_not_frame_consistent:
  "op \<noteq> FrameCallback \<Longrightarrow> flags_consistent t \<Longrightarrow> flags_consistent (step op t)"
  by (cases op)
    (auto simp add: flags_consistent_def show'_def initiateOpening_def
      onAfterRendering_def ontransitionend_def onmouseover_def onmouseleave_def)

lemma step_not_frame_open:
  "op \<noteq> FrameCallback \<Longrightarrow> open' (step op t) \<Longrightarrow> open' t"
  by (cases op)
    (auto simp add: show'_def initiateOpening_def onAfterRendering_def
      ontransitionend_def onmouseover_def onmouseleave_def split: if_splits)

lemma step_registers_after_domRendered:
  "rafPending t < rafPending (step op t) \<Longrightarrow> domRendered (step op t)"
  by (cases op)
    (auto simp add: show'_def initiateOpening_def onAfterRendering_def
      frameCallback_def ontransitionend_def onmouseover_def onmouseleave_def
      split: if_splits)

text \<open>
  The callback does not look at \<open>_reopen\<close> either: with two callbacks registered
  and \<open>show\<close> called between them, the second one opens a toast that is marked for
  reopening.
\<close>

lemma frameCallback_ignores_reopen:
  "reopen (run [Show, Show, FrameCallback, Show, FrameCallback] constructor) \<and>
   open' (run [Show, Show, FrameCallback, Show, FrameCallback] constructor)"
  by (simp add: run_def constructor_def show'_def initiateOpening_def frameCallback_def)

text \<open>
  C10, as the claim states it, fails. A toast is shown and opened, shown again and
  rendered (the opening is initiated a second time), then a transition ends before
  the browser runs the registered callback: the callback sets \<open>open\<close> on a toast
  whose \<open>domRendered\<close> is false.
\<close>

theorem flags_consistent_counterexample:
  "\<not> flags_consistent
     (run [Show, FrameCallback, Show, OnAfterRendering, OnTransitionEnd, FrameCallback]
        constructor)"
  by (simp add: run_def constructor_def flags_consistent_def show'_def
      initiateOpening_def frameCallback_def onAfterRendering_def ontransitionend_def)

text \<open>
  C10, amended. The constructor establishes the relation between the flags
  (\<open>_reopen\<close> implies not \<open>open\<close>, \<open>open\<close> implies \<open>domRendered\<close>), and every
  operation other than the animation-frame callback keeps it. \<open>show\<close> never leaves
  \<open>open\<close> true, and no operation other than the callback makes \<open>open\<close> true. A
  callback is registered only by an operation that leaves \<open>domRendered\<close> true. The
  callback itself sets \<open>open\<close> and leaves \<open>_reopen\<close> and \<open>domRendered\<close> as they
  are: a pending callback yields a toast with the relation if and only if it runs
  with \<open>_reopen\<close> false and \<open>domRendered\<close> true.
\<close>

theorem flags_consistent_steps:
  "flags_consistent constructor \<and>
   (op \<noteq> FrameCallback \<and> flags_consistent t \<longrightarrow> flags_consistent (step op t)) \<and>
   \<not> open' (show' t) \<and>
   (op \<noteq> FrameCallback \<and> open' (step op t) \<longrightarrow> open' t) \<and>
   (rafPending t < rafPending (step op t) \<longrightarrow> domRendered (step op t)) \<and>
   (0 < rafPending t \<longrightarrow> open' (frameCallback t)) \<and>
   (\<not> reopen t \<and> domRendered t \<longrightarrow> flags_consistent (frameCallback t)) \<and>
   (0 < rafPending t \<longrightarrow>
      flags_consistent (frameCallback t) = (\<not> reopen t \<and> domRendered t)) \<and>
   reopen (frameCallback t) = reopen t \<and>
   domRendered (frameCallback t) = domRendered t"
proof -
  have c: "flags_consistent constructor"
    by (simp add: flags_consistent_def constructor_def)
  have f: "0 < rafPending t \<longrightarrow> open' (frameCallback t)"
    by (simp add: frameCallback_def)
  have k: "\<not> reopen t \<and> domRendered t \<longrightarrow> flags_consistent (frameCallback t)"
    by (simp add: flags_consistent_def frameCallback_def)
  have i: "0 < rafPending t \<longrightarrow>
      flags_consistent (frameCallback t) = (\<not> reopen t \<and> domRendered t)"
    by (simp add: flags_consistent_def frameCallback_def)
  have u: "reopen (frameCallback t) = reopen t \<and>
      domRendered (frameCallback t) = domRendered t"
    by (simp add: frameCallback_def)
  from c f k i u show ?thesis
    using step_not_frame_consistent [of op t] step_not_frame_open [of op t]
      step_registers_after_domRendered [of t op] show_not_open [of t]
    by blast
qed

theorem flags_consistent_steps_witness:
  "Show \<noteq> FrameCallback \<and>
   open' (frameCallback (show' constructor)) \<and>
   domRendered (frameCallback (show' constructor)) \<and>
   flags_consistent (frameCallback (show' constructor)) \<and>
   flags_consistent (step Show (frameCallback (show' constructor))) \<and>
   reopen (step Show (frameCallback (show' constructor))) \<and>
   \<not> open' (step Show (frameCallback (show' constructor))) \<and>
   rafPending constructor < rafPending (step Show constructor) \<and>
   domRendered (step Show constructor) \<and>
   0 < rafPending (show' constructor) \<and>
   \<not> reopen (show' constructor) \<and> domRendered (show' constructor) \<and>
   flags_consistent (frameCallback (show' constructor)) \<and>
   0 < rafPending (ontransitionend (show' constructor)) \<and>
   \<not> domRendered (ontransitionend (show' constructor)) \<and>
   \<not> flags_consistent (frameCallback (ontransitionend (show' constructor)))"
  using flags_consistent_steps [of Show "frameCallback (show' constructor)"]
    flags_consistent_steps [of Show constructor]
    flags_consistent_steps [of Show "show' constructor"]
    flags_consistent_steps [of Show "ontransitionend (show' constructor)"]
  by (simp add: constructor_def flags_consistent_def show'_def initiateOpening_def
      frameCallback_def ontransitionend_def)

section \<open>Properties of the upload collection\<close>

subsection \<open>The last dot of a file name\<close>

lemma lastIndexOf_None: "lastIndexOf c xs = None \<longleftrightarrow> c \<notin> set xs"
  by (induction xs) (auto split: option.splits)

lemma lastIndexOf_Some:
  "lastIndexOf c xs = Some i \<Longrightarrow>
     i < length xs \<and> drop i xs = c # drop (Suc i) xs \<and> c \<notin> set (drop (Suc i) xs)"
proof (induction xs arbitrary: i)
  case Nil
  then show ?case by simp
next
  case (Cons x xs)
  show ?case
  proof (cases "lastIndexOf c xs")
    case None
    with Cons.prems have "i = 0" and "x = c"
      by (auto split: if_splits)
    moreover from None have "c \<notin> set xs"
      by (simp add: lastIndexOf_None)
    ultimately show ?thesis by simp
  next
    case (Some j)
    with Cons.prems have "i = Suc j" by simp
    with Cons.IH [OF Some] show ?thesis by simp
  qed
qed

lemma lastIndexOf_zero: "lastIndexOf c xs = Some 0 \<Longrightarrow> c \<notin> set (tl xs)"
  by (cases xs) (auto split: option.splits if_splits simp add: lastIndexOf_None)

lemma lastIndexOf_in_set: "lastIndexOf c xs = Some i \<Longrightarrow> c \<in> set xs"
  using lastIndexOf_None [of c xs] by auto

lemma lastIndexOf_tl:
  "lastIndexOf c xs = Some (Suc j) \<Longrightarrow> c \<in> set (tl xs)"
  by (cases xs) (auto split: option.splits if_splits dest: lastIndexOf_in_set)

lemma fileExtension_cases:
  "fileExtension n = [] \<or> (\<exists>e. fileExtension n = CHR ''.'' # e \<and> CHR ''.'' \<notin> set e)"
proof (cases "lastIndexOf CHR ''.'' n")
  case None
  then show ?thesis by (simp add: fileExtension_def)
next
  case (Some i)
  from lastIndexOf_Some [OF Some] show ?thesis
    by (simp add: fileExtension_def Some)
qed

lemma fileExtension_suffix: "fileNameWithoutExtension n @ fileExtension n = n"
proof (cases "lastIndexOf CHR ''.'' n")
  case None
  then show ?thesis by (simp add: fileNameWithoutExtension_def fileExtension_def)
next
  case (Some i)
  from lastIndexOf_Some [OF Some] have "i < length n" by simp
  then show ?thesis
    by (simp add: fileNameWithoutExtension_def fileExtension_def Some)
qed

lemma fileExtension_empty_iff: "fileExtension n = [] \<longleftrightarrow> CHR ''.'' \<notin> set (tl n)"
proof (cases "lastIndexOf CHR ''.'' n")
  case None
  then have "CHR ''.'' \<notin> set n" by (simp add: lastIndexOf_None)
  then have "CHR ''.'' \<notin> set (tl n)" by (cases n) auto
  with None show ?thesis by (simp add: fileExtension_def)
next
  case (Some i)
  show ?thesis
  proof (cases i)
    case 0
    with Some lastIndexOf_zero [of "CHR ''.''" n] show ?thesis
      by (simp add: fileExtension_def)
  next
    case (Suc j)
    with Some lastIndexOf_tl [of "CHR ''.''" n j] lastIndexOf_Some [OF Some] show ?thesis
      by (simp add: fileExtension_def)
  qed
qed

text \<open>
  C1. The extension of an item in edit-in-place mode is the part of the current file
  name after its last dot: base name and extension make up the file name, the
  extension (when there is one) is a dot followed by text without a dot, and a name
  with no dot after its first character (such as \<open>.gitignore\<close>) has no extension.
  The edit input holds the base name only, and confirming a rename appends the
  extension to the entered base name: renaming \<open>newFileName.newExtension\<close> by entering
  \<open>newFileName2\<close> gives \<open>newFileName2.newExtension\<close>.
\<close>

theorem fileExtension_rename:
  "fileNameWithoutExtension n @ fileExtension n = n \<and>
   (fileExtension n = [] \<or> (\<exists>e. fileExtension n = CHR ''.'' # e \<and> CHR ''.'' \<notin> set e)) \<and>
   (fileExtension n = [] \<longleftrightarrow> CHR ''.'' \<notin> set (tl n)) \<and>
   fileExtension ''.gitignore'' = [] \<and>
   editing (onDetailClick it) \<and>
   editInput (onDetailClick it) = fileNameWithoutExtension (fileName it) \<and>
   fileName (fst (onRename (onInput txt (onDetailClick it))))
     = txt @ fileExtension (fileName it) \<and>
   \<not> editing (fst (onRename (onInput txt (onDetailClick it)))) \<and>
   fileName (fst (onRename (onInput ''newFileName2''
       (onDetailClick (it\<lparr>fileName := ''newFileName.newExtension''\<rparr>)))))
     = ''newFileName2.newExtension''"
proof -
  have g: "fileExtension ''.gitignore'' = []"
    by (simp add: fileExtension_def)
  have x: "fileExtension ''newFileName.newExtension'' = ''.newExtension''"
    by (simp add: fileExtension_def)
  have r: "fileName (fst (onRename (onInput t (onDetailClick i))))
      = t @ fileExtension (fileName i)" for t i
    by (simp add: onRename_def onInput_def onDetailClick_def)
  have e: "\<not> editing (fst (onRename (onInput txt (onDetailClick it))))"
    by (simp add: onRename_def)
  have d: "editing (onDetailClick it) \<and>
      editInput (onDetailClick it) = fileNameWithoutExtension (fileName it)"
    by (simp add: onDetailClick_def)
  have n: "fileName (fst (onRename (onInput ''newFileName2''
       (onDetailClick (it\<lparr>fileName := ''newFileName.newExtension''\<rparr>)))))
     = ''newFileName2.newExtension''"
    by (simp add: r x)
  from g r e d n fileExtension_suffix [of n] fileExtension_cases [of n]
    fileExtension_empty_iff [of n]
  show ?thesis by blast
qed

theorem fileExtension_rename_witness:
  "fileExtension ''latest-reports.pdf'' = ''.pdf'' \<and>
   CHR ''.'' \<in> set (tl ''latest-reports.pdf'') \<and>
   fileNameWithoutExtension ''latest-reports.pdf'' = ''latest-reports'' \<and>
   fileName (fst (onRename (onInput ''last.reports-edited''
       (onDetailClick \<lparr>item_id = ''errorState'', fileName = ''latest-reports.pdf'',
          editing = False, editInput = []\<rparr>))))
     = ''last.reports-edited.pdf''"
  using fileExtension_rename [of "''latest-reports.pdf''"
      "\<lparr>item_id = ''errorState'', fileName = ''latest-reports.pdf'',
         editing = False, editInput = []\<rparr>" "''last.reports-edited''"]
  by (simp add: fileExtension_def fileNameWithoutExtension_def)

subsection \<open>Cancelling a rename\<close>

text \<open>
  C9. For every item and every text entered into the edit input, the cancel button
  ends the edit and leaves the file name as it was before the edit began; no event
  is fired. So it is for the hidden file \<open>.gitignore\<close> with \<open>new name\<close> typed.
\<close>

theorem rename_cancel_keeps_fileName:
  "fileName (fst (onRenameCancel (onInput txt (onDetailClick it)))) = fileName it \<and>
   \<not> editing (fst (onRenameCancel (onInput txt (onDetailClick it)))) \<and>
   item_id (fst (onRenameCancel (onInput txt (onDetailClick it)))) = item_id it \<and>
   snd (onRenameCancel (onInput txt (onDetailClick it))) = [] \<and>
   fileName (fst (onRenameCancel (onInput ''new name''
       (onDetailClick \<lparr>item_id = ''hiddenFileName'', fileName = ''.gitignore'',
          editing = False, editInput = []\<rparr>))))
     = ''.gitignore''"
  by (simp add: onRenameCancel_def onInput_def onDetailClick_def)

subsection \<open>Forwarding to the inner list\<close>

text \<open>
  C7. Whatever the accessible-name attribute of the upload collection is (absent
  included), the inner list has the same accessible name, and the content of the
  header slot is the header of the inner list.
\<close>

theorem innerList_forwarding:
  "list_accessibleName (innerList uc) = accessibleName uc \<and>
   list_accessibleName (innerList (uc\<lparr>accessibleName := a\<rparr>)) = a \<and>
   list_header (innerList uc) = header uc"
  by (simp add: innerList_def)

subsection \<open>Deleting an item\<close>

lemma filter_other_ids:
  "distinct (map item_id xs) \<Longrightarrow> it \<in> set xs \<Longrightarrow>
     filter (\<lambda>x. item_id x \<noteq> item_id it) xs = remove1 it xs"
proof (induction xs)
  case Nil
  then show ?case by simp
next
  case (Cons x xs)
  show ?case
  proof (cases "x = it")
    case True
    with Cons.prems have "\<forall>y \<in> set xs. item_id y \<noteq> item_id it"
      by (auto simp add: image_iff)
    with True show ?thesis by simp
  next
    case False
    with Cons.prems have "it \<in> set xs" and "item_id x \<noteq> item_id it"
      by auto
    with Cons False show ?thesis by auto
  qed
qed

text \<open>
  C8. In every mode of the upload collection, a click on the delete button of one of
  its items (the items told apart by their ids) fires \<open>item-delete\<close> for that item,
  after which the item is no longer among the collection's items and the others are
  all there; the mode has no part in it.
\<close>

theorem clickDelete_any_mode:
  "it \<in> set (items uc) \<Longrightarrow> distinct (map item_id (items uc)) \<Longrightarrow>
     fst (clickDelete (uc\<lparr>mode := m\<rparr>) it) = [ItemDelete (item_id it)] \<and>
     items (snd (clickDelete (uc\<lparr>mode := m\<rparr>) it)) = remove1 it (items uc) \<and>
     it \<notin> set (items (snd (clickDelete (uc\<lparr>mode := m\<rparr>) it))) \<and>
     length (items (snd (clickDelete (uc\<lparr>mode := m\<rparr>) it))) + 1 = length (items uc) \<and>
     snd (clickDelete (uc\<lparr>mode := m\<rparr>) it) = (snd (clickDelete uc it))\<lparr>mode := m\<rparr>"
proof -
  assume i: "it \<in> set (items uc)" and d: "distinct (map item_id (items uc))"
  have r: "items (snd (clickDelete (uc\<lparr>mode := m\<rparr>) it)) = remove1 it (items uc)"
    using filter_other_ids [OF d i] by (simp add: clickDelete_def onItemDelete_def)
  from d have "distinct (items uc)"
    by (rule distinct_map [THEN iffD1, THEN conjunct1])
  with i have "it \<notin> set (remove1 it (items uc))"
    by simp
  moreover from i have "length (remove1 it (items uc)) + 1 = length (items uc)"
    by (simp add: length_remove1) (cases "items uc"; simp)
  ultimately show ?thesis
    using r by (simp add: clickDelete_def onItemDelete_def)
qed

theorem clickDelete_any_mode_witness:
  "(let a = \<lparr>item_id = ''firstItem'', fileName = ''a.txt'', editing = False,
              editInput = []\<rparr>;
        b = \<lparr>item_id = ''latestReportsPdf'', fileName = ''b.pdf'', editing = False,
              editInput = []\<rparr>;
        uc = \<lparr>mode = ''None'', accessibleName = None, header = [], items = [a, b]\<rparr>
    in a \<in> set (items uc) \<and> distinct (map item_id (items uc)) \<and>
       fst (clickDelete (uc\<lparr>mode := ''Delete''\<rparr>) a) = [ItemDelete ''firstItem''] \<and>
       items (snd (clickDelete (uc\<lparr>mode := ''Delete''\<rparr>) a)) = [b] \<and>
       items (snd (clickDelete uc b)) = [a])"
  using clickDelete_any_mode [of
      "\<lparr>item_id = ''firstItem'', fileName = ''a.txt'', editing = False, editInput = []\<rparr>"
      "\<lparr>mode = ''None'', accessibleName = None, header = [],
        items = [\<lparr>item_id = ''firstItem'', fileName = ''a.txt'', editing = False,
                   editInput = []\<rparr>,
                 \<lparr>item_id = ''latestReportsPdf'', fileName = ''b.pdf'', editing = False,
                   editInput = []\<rparr>]\<rparr>"
      "''Delete''"]
  by (simp add: clickDelete_def onItemDelete_def Let_def)

end
